theory Spec2Isabelle
  imports Main
begin

section \<open>Data model of parser.c\<close>

text \<open>
  Modelled from the spec: gram.h is not part of the sources. The token kinds are the
  enumerators that the generated header declares, pairwise distinct. Only the kinds that
  \<open>filtered_base_yylex\<close> names are listed; \<open>OTHER n\<close> stands for every other token
  code (SELECT, an identifier, a literal, ...), and \<open>YYEOF\<close> is the end-of-input code.
\<close>

datatype token_kind =
    YYEOF
  | NULLS_P | FIRST_P | LAST_P
  | WITH | CASCADED | LOCAL | CHECK
  | NULLS_FIRST | NULLS_LAST
  | WITH_CASCADED | WITH_LOCAL | WITH_CHECK
  | OTHER int

text \<open>
  Modelled from the spec: the scanner (scan.l) is not part of the sources. It produces, on
  demand, a sequence of triples (kind, value, location), or raises a lexical error through
  the non-local exit. A scanner buffer is the list of what is still to be produced.
\<close>

datatype ('v, 'l) lexeme = Token token_kind 'v 'l | Lexical_error

text \<open>The two errors that reach the recovery point of \<open>raw_parser\<close> by longjmp.\<close>

datatype failure = LexicalError | SyntaxError

text \<open>Calls to the collaborators whose bodies are not in parser.c, in the order made.\<close>

datatype call =
    Pool_memory_create nat
  | Pool_memory_delete "nat option" int
  | Scanner_init string
  | Parser_init
  | Scanner_finish

text \<open>
  The global variables that parser.c defines or uses. \<open>'v\<close> is YYSTYPE, \<open>'l\<close> is
  YYLTYPE, \<open>'t\<close> is the type of a parse-tree node. \<open>pool_memory = None\<close> is the
  NULL handle. The fields \<open>scan_buf\<close>, \<open>scan_eof_yylval\<close>, \<open>scan_eof_yylloc\<close> and
  \<open>scan_pos\<close> are the state of the scanner: what it has still to produce, the value and
  location it reports with end-of-input, and how many tokens it has produced.
  \<open>calls\<close> records the calls to the collaborators.
\<close>

record ('v, 'l, 't) parser_state =
  parsetree :: "'t list"
  pool_memory :: "nat option"
  lookahead_token :: token_kind
  have_lookahead :: bool
  lookahead_yylval :: 'v
  lookahead_yylloc :: 'l
  base_yylval :: 'v
  base_yylloc :: 'l
  scan_buf :: "('v, 'l) lexeme list"
  scan_eof_yylval :: 'v
  scan_eof_yylloc :: 'l
  scan_pos :: nat
  calls :: "call list"

type_synonym ('v, 'l, 't) lex_result =
  "failure \<times> ('v, 'l, 't) parser_state + token_kind \<times> ('v, 'l, 't) parser_state"

section \<open>The scanner\<close>

text \<open>
  Modelled from the spec: \<open>base_yylex\<close> (scan.l) is not part of the sources. One call
  produces the next triple: it returns the kind and leaves value and location in
  \<open>base_yylval\<close> and \<open>base_yylloc\<close>. At the end of the buffer it reports end-of-input, on
  every call. On a malformed lexeme it jumps to the recovery point (\<open>Inl\<close>).
\<close>

definition base_yylex :: "('v, 'l, 't) parser_state \<Rightarrow> ('v, 'l, 't) lex_result" where
  "base_yylex st =
     (case scan_buf st of
        [] \<Rightarrow>
          Inr (YYEOF, st\<lparr>scan_pos := scan_pos st + 1,
                          base_yylval := scan_eof_yylval st,
                          base_yylloc := scan_eof_yylloc st\<rparr>)
      | Token k v l # rest \<Rightarrow>
          Inr (k, st\<lparr>scan_buf := rest, scan_pos := scan_pos st + 1,
                      base_yylval := v, base_yylloc := l\<rparr>)
      | Lexical_error # rest \<Rightarrow> Inl (LexicalError, st))"

section \<open>The token filter\<close>

text \<open>
  \<open>filtered_base_yylex\<close>, parser.c lines 94 to 187. The locals \<open>cur_token\<close>,
  \<open>next_token\<close>, \<open>cur_yylval\<close>, \<open>cur_yylloc\<close> keep their names; the two switch
  statements are the two levels of \<open>case\<close>.
\<close>

definition filtered_base_yylex :: "('v, 'l, 't) parser_state \<Rightarrow> ('v, 'l, 't) lex_result" where
  "filtered_base_yylex st =
     (case (if have_lookahead st
            then Inr (lookahead_token st,
                      st\<lparr>base_yylval := lookahead_yylval st,
                         base_yylloc := lookahead_yylloc st,
                         have_lookahead := False\<rparr>)
            else base_yylex st) of
        Inl err \<Rightarrow> Inl err
      | Inr (cur_token, st1) \<Rightarrow>
          (case cur_token of
             NULLS_P \<Rightarrow>
               (let cur_yylval = base_yylval st1;
                    cur_yylloc = base_yylloc st1
                in case base_yylex st1 of
                     Inl err \<Rightarrow> Inl err
                   | Inr (next_token, st2) \<Rightarrow>
                       (case next_token of
                          FIRST_P \<Rightarrow> Inr (NULLS_FIRST, st2)
                        | LAST_P \<Rightarrow> Inr (NULLS_LAST, st2)
                        | _ \<Rightarrow>
                            Inr (cur_token,
                                 st2\<lparr>lookahead_token := next_token,
                                     lookahead_yylval := base_yylval st2,
                                     lookahead_yylloc := base_yylloc st2,
                                     have_lookahead := True,
                                     base_yylval := cur_yylval,
                                     base_yylloc := cur_yylloc\<rparr>)))
           | WITH \<Rightarrow>
               (let cur_yylval = base_yylval st1;
                    cur_yylloc = base_yylloc st1
                in case base_yylex st1 of
                     Inl err \<Rightarrow> Inl err
                   | Inr (next_token, st2) \<Rightarrow>
                       (case next_token of
                          CASCADED \<Rightarrow> Inr (WITH_CASCADED, st2)
                        | LOCAL \<Rightarrow> Inr (WITH_LOCAL, st2)
                        | CHECK \<Rightarrow> Inr (WITH_CHECK, st2)
                        | _ \<Rightarrow>
                            Inr (cur_token,
                                 st2\<lparr>lookahead_token := next_token,
                                     lookahead_yylval := base_yylval st2,
                                     lookahead_yylloc := base_yylloc st2,
                                     have_lookahead := True,
                                     base_yylval := cur_yylval,
                                     base_yylloc := cur_yylloc\<rparr>)))
           | _ \<Rightarrow> Inr (cur_token, st1)))"

section \<open>The grammar engine\<close>

text \<open>
  Modelled from the spec: the grammar engine (\<open>base_yyparse\<close>, generated from gram.y) is
  not part of the sources. It is a single entry point that repeatedly pulls a token through
  \<open>filtered_base_yylex\<close> until it accepts, rejects, or raises an error. The tables of
  the automaton are a parameter: \<open>gram_token\<close> reacts to a token, \<open>gram_eof\<close> to
  end-of-input, after which the engine reads no further token. A reaction may store a
  tree list in \<open>parsetree\<close> (the engine only writes that variable).
\<close>

datatype ending =
    Return int  \<comment> \<open>\<open>base_yyparse\<close> returns this status; 0 is accept\<close>
  | Raise       \<comment> \<open>\<open>yyerror\<close> jumps to the recovery point\<close>

datatype 'p reaction = Continue 'p | Finish ending

record ('p, 'v, 'l, 't) grammar =
  gram_start :: 'p
  gram_token :: "'p \<Rightarrow> token_kind \<Rightarrow> 'v \<Rightarrow> 'l \<Rightarrow> 't list option \<times> 'p reaction"
  gram_eof :: "'p \<Rightarrow> 'v \<Rightarrow> 'l \<Rightarrow> 't list option \<times> ending"

type_synonym ('v, 'l, 't) parse_result =
  "failure \<times> ('v, 'l, 't) parser_state + int \<times> ('v, 'l, 't) parser_state"

definition store_tree ::
  "'t list option \<Rightarrow> ('v, 'l, 't) parser_state \<Rightarrow> ('v, 'l, 't) parser_state" where
  "store_tree w st = (case w of None \<Rightarrow> st | Some trees \<Rightarrow> st\<lparr>parsetree := trees\<rparr>)"

definition ended ::
  "ending \<Rightarrow> ('v, 'l, 't) parser_state \<Rightarrow> ('v, 'l, 't) parse_result" where
  "ended e st = (case e of Return r \<Rightarrow> Inr (r, st) | Raise \<Rightarrow> Inl (SyntaxError, st))"

text \<open>The weight of what is still to be read: it decreases with every token pulled.\<close>

definition unread :: "('v, 'l, 't) parser_state \<Rightarrow> nat" where
  "unread st =
     3 * length (scan_buf st) +
     (if have_lookahead st then (if lookahead_token st = YYEOF then 1 else 2) else 0)"

function yyparse_loop ::
  "('p, 'v, 'l, 't) grammar \<Rightarrow> 'p \<Rightarrow> ('v, 'l, 't) parser_state \<Rightarrow> ('v, 'l, 't) parse_result"
where
  "yyparse_loop g p st =
     (case filtered_base_yylex st of
        Inl err \<Rightarrow> Inl err
      | Inr (tok, st1) \<Rightarrow>
          if tok = YYEOF then
            (case gram_eof g p (base_yylval st1) (base_yylloc st1) of
               (w, e) \<Rightarrow> ended e (store_tree w st1))
          else
            (case gram_token g p tok (base_yylval st1) (base_yylloc st1) of
               (w, Continue p') \<Rightarrow> yyparse_loop g p' (store_tree w st1)
             | (w, Finish e) \<Rightarrow> ended e (store_tree w st1)))"
  by pat_completeness auto

text \<open>
  Termination of the engine. The switch statements of the filter as conditionals; every
  token pulled that is not end-of-input lowers \<open>unread\<close>.
\<close>

lemma switch_nulls:
  "(case nx of FIRST_P \<Rightarrow> a | LAST_P \<Rightarrow> b | _ \<Rightarrow> c) =
   (if nx = FIRST_P then a else if nx = LAST_P then b else c)"
  by (cases nx) simp_all

lemma switch_with:
  "(case nx of CASCADED \<Rightarrow> a | LOCAL \<Rightarrow> b | CHECK \<Rightarrow> c | _ \<Rightarrow> d) =
   (if nx = CASCADED then a else if nx = LOCAL then b else if nx = CHECK then c else d)"
  by (cases nx) simp_all

lemma switch_cur:
  "(case cur of NULLS_P \<Rightarrow> a | WITH \<Rightarrow> b | _ \<Rightarrow> c) =
   (if cur = NULLS_P then a else if cur = WITH then b else c)"
  by (cases cur) simp_all

lemmas filter_unfold = filtered_base_yylex_def Let_def switch_nulls switch_with switch_cur

lemma filter_unread:
  "filtered_base_yylex st = Inr (tok, st1) \<Longrightarrow> tok \<noteq> YYEOF \<Longrightarrow> unread st1 < unread st"
  unfolding filter_unfold unread_def base_yylex_def
  by (auto split: if_splits sum.splits prod.splits list.splits lexeme.splits)

termination yyparse_loop
  apply (relation "measure (\<lambda>(g, p, st). unread st)")
   apply simp
  apply (auto dest!: filter_unread simp: store_tree_def unread_def split: option.splits)
  done

declare yyparse_loop.simps [simp del]

definition base_yyparse ::
  "('p, 'v, 'l, 't) grammar \<Rightarrow> ('v, 'l, 't) parser_state \<Rightarrow> ('v, 'l, 't) parse_result" where
  "base_yyparse g st = yyparse_loop g (gram_start g) st"

section \<open>The other collaborators\<close>

text \<open>
  Modelled from the spec: pool_memory.c is not part of the sources. \<open>pool_memory_create\<close>
  returns the handle of a new arena; \<open>pool_memory_delete\<close> releases the memory of the
  arena it is given. Both receive and return values only: neither assigns a variable of
  parser.c. The handle of a new arena is the number of calls made before it.
\<close>

definition pool_memory_create ::
  "('v, 'l, 't) parser_state \<Rightarrow> nat \<times> ('v, 'l, 't) parser_state" where
  "pool_memory_create st =
     (length (calls st), st\<lparr>calls := calls st @ [Pool_memory_create (length (calls st))]\<rparr>)"

definition pool_memory_delete ::
  "nat option \<Rightarrow> int \<Rightarrow> ('v, 'l, 't) parser_state \<Rightarrow> ('v, 'l, 't) parser_state" where
  "pool_memory_delete pool reuse st = st\<lparr>calls := calls st @ [Pool_memory_delete pool reuse]\<rparr>"

text \<open>
  Modelled from the spec: \<open>scanner_init\<close>, \<open>scanner_finish\<close> (scan.l) and
  \<open>parser_init\<close> (gram.y) are not part of the sources. \<open>scanner_init\<close> sets the scanner
  up over the text; the lexical rules are a parameter, which gives for a text the lexemes
  and the value and location reported with end-of-input.
\<close>

type_synonym ('v, 'l) lexical_rules = "string \<Rightarrow> ('v, 'l) lexeme list \<times> 'v \<times> 'l"

definition scanner_init ::
  "('v, 'l) lexical_rules \<Rightarrow> string \<Rightarrow> ('v, 'l, 't) parser_state \<Rightarrow> ('v, 'l, 't) parser_state" where
  "scanner_init rules str st =
     (case rules str of
        (buf, v, l) \<Rightarrow>
          st\<lparr>scan_buf := buf, scan_eof_yylval := v, scan_eof_yylloc := l, scan_pos := 0,
             calls := calls st @ [Scanner_init str]\<rparr>)"

definition parser_init :: "('v, 'l, 't) parser_state \<Rightarrow> ('v, 'l, 't) parser_state" where
  "parser_init st = st\<lparr>calls := calls st @ [Parser_init]\<rparr>"

definition scanner_finish :: "('v, 'l, 't) parser_state \<Rightarrow> ('v, 'l, 't) parser_state" where
  "scanner_finish st = st\<lparr>calls := calls st @ [Scanner_finish]\<rparr>"

section \<open>The parse driver\<close>

text \<open>
  \<open>raw_parser\<close>, parser.c lines 45 to 74. \<open>raw_parser_setup\<close> is lines 50 to 57, up to
  the recovery point. The \<open>setjmp\<close> of line 59 returns nonzero exactly when the engine
  or the scanner jumped: the branch \<open>Inl\<close>. NIL is the empty list.
\<close>

definition raw_parser_setup ::
  "('v, 'l) lexical_rules \<Rightarrow> string \<Rightarrow> ('v, 'l, 't) parser_state \<Rightarrow> ('v, 'l, 't) parser_state" where
  "raw_parser_setup rules str st =
     (let st1 = (if pool_memory st = None
                 then (case pool_memory_create st of (pool, st') \<Rightarrow> st'\<lparr>pool_memory := Some pool\<rparr>)
                 else st);
          st2 = st1\<lparr>parsetree := []\<rparr>;
          st3 = st2\<lparr>have_lookahead := False\<rparr>;
          st4 = scanner_init rules str st3
      in parser_init st4)"

definition raw_parser ::
  "('p, 'v, 'l, 't) grammar \<Rightarrow> ('v, 'l) lexical_rules \<Rightarrow> string \<Rightarrow>
   ('v, 'l, 't) parser_state \<Rightarrow> 't list \<times> ('v, 'l, 't) parser_state" where
  "raw_parser g rules str st =
     (case base_yyparse g (raw_parser_setup rules str st) of
        Inl (err, st') \<Rightarrow> ([], scanner_finish st')
      | Inr (yyresult, st') \<Rightarrow>
          (let st'' = scanner_finish st'
           in if yyresult \<noteq> 0 then ([], st'') else (parsetree st'', st'')))"

text \<open>\<open>free_parser\<close>, parser.c lines 76 to 79.\<close>

definition free_parser :: "('v, 'l, 't) parser_state \<Rightarrow> ('v, 'l, 't) parser_state" where
  "free_parser st = pool_memory_delete (pool_memory st) 1 st"

section \<open>Observing the filter and the driver\<close>

text \<open>
  The pairs that the two inner switch statements merge, with the synthetic kind of each:
  (trigger, continuation, merged kind).
\<close>

definition merge_table :: "(token_kind \<times> token_kind \<times> token_kind) set" where
  "merge_table =
     {(NULLS_P, FIRST_P, NULLS_FIRST), (NULLS_P, LAST_P, NULLS_LAST),
      (WITH, CASCADED, WITH_CASCADED), (WITH, LOCAL, WITH_LOCAL), (WITH, CHECK, WITH_CHECK)}"

text \<open>
  What the caller of a lexer function sees: the kind returned, with the value and the
  location left in \<open>base_yylval\<close> and \<open>base_yylloc\<close>; nothing when the call jumped.
\<close>

definition observed :: "('v, 'l, 't) lex_result \<Rightarrow> (token_kind \<times> 'v \<times> 'l) option" where
  "observed r =
     (case r of Inl err \<Rightarrow> None | Inr (k, st) \<Rightarrow> Some (k, base_yylval st, base_yylloc st))"

text \<open>
  A token as the caller sees it: kind, value, location. \<open>pending\<close> is the content
  of the lookahead slot, as a list of at most one token.
\<close>

type_synonym ('v, 'l) token = "token_kind \<times> 'v \<times> 'l"

definition pending :: "('v, 'l, 't) parser_state \<Rightarrow> ('v, 'l) token list" where
  "pending st =
     (if have_lookahead st
      then [(lookahead_token st, lookahead_yylval st, lookahead_yylloc st)] else [])"

text \<open>
  \<open>n\<close> calls of \<open>filtered_base_yylex\<close> in a row: the tokens returned, in order,
  and the state after the last call. \<open>scanner_calls\<close> is the same for \<open>base_yylex\<close>
  alone: the tokens that the scanner produces from a state.
\<close>

fun filter_calls ::
  "nat \<Rightarrow> ('v, 'l, 't) parser_state \<Rightarrow>
   failure \<times> ('v, 'l, 't) parser_state + ('v, 'l) token list \<times> ('v, 'l, 't) parser_state" where
  "filter_calls 0 st = Inr ([], st)"
| "filter_calls (Suc n) st =
     (case filtered_base_yylex st of
        Inl err \<Rightarrow> Inl err
      | Inr (k, st1) \<Rightarrow>
          (case filter_calls n st1 of
             Inl err \<Rightarrow> Inl err
           | Inr (out, st2) \<Rightarrow> Inr ((k, base_yylval st1, base_yylloc st1) # out, st2)))"

fun scanner_calls :: "nat \<Rightarrow> ('v, 'l, 't) parser_state \<Rightarrow> ('v, 'l) token list" where
  "scanner_calls 0 st = []"
| "scanner_calls (Suc n) st =
     (case base_yylex st of
        Inl err \<Rightarrow> []
      | Inr (k, st1) \<Rightarrow> (k, base_yylval st1, base_yylloc st1) # scanner_calls n st1)"

text \<open>
  A returned token stands for one scanner token, which it equals, or for two: a trigger and
  its continuation, of which it has the merged kind and, as the code leaves them, the value
  and location of the second.
\<close>

fun stands_for :: "('v, 'l) token \<Rightarrow> ('v, 'l) token list \<Rightarrow> bool" where
  "stands_for out [tok] = (out = tok)"
| "stands_for (m, v, l) [(t, v1, l1), (c, v2, l2)] = ((t, c, m) \<in> merge_table \<and> v = v2 \<and> l = l2)"
| "stands_for out toks = False"

text \<open>
  The state in which a call ends, whether it returned or jumped; the error of a call that
  jumped; the status and the tree list left by an engine that returned.
\<close>

definition final_state :: "'a \<times> 's + 'b \<times> 's \<Rightarrow> 's" where
  "final_state r = (case r of Inl (e, s) \<Rightarrow> s | Inr (x, s) \<Rightarrow> s)"

definition failure_of :: "failure \<times> 's + 'b \<times> 's \<Rightarrow> failure option" where
  "failure_of r = (case r of Inl (e, s) \<Rightarrow> Some e | Inr x \<Rightarrow> None)"

definition result_of ::
  "('v, 'l, 't) parse_result \<Rightarrow> (int \<times> 't list) option" where
  "result_of r = (case r of Inl x \<Rightarrow> None | Inr (i, s) \<Rightarrow> Some (i, parsetree s))"

section \<open>Examples\<close>

text \<open>
  A concrete session for examples: values are the words of the text, locations are
  offsets, the scanner is set up over the given lexemes and the lookahead slot is empty.
\<close>

definition fresh_session :: "(string, nat) lexeme list \<Rightarrow> (string, nat, string) parser_state" where
  "fresh_session buf =
     \<lparr>parsetree = [], pool_memory = None, lookahead_token = YYEOF, have_lookahead = False,
      lookahead_yylval = [], lookahead_yylloc = 0, base_yylval = [], base_yylloc = 0,
      scan_buf = buf, scan_eof_yylval = [], scan_eof_yylloc = 0, scan_pos = 0, calls = []\<rparr>"

text \<open>
  Lexical rules and a grammar for examples. The text \<open>select @\<close> has a malformed
  lexeme, \<open>select )\<close> has a token the grammar rejects with an error, \<open>select ;\<close>
  one on which it returns the status 1, and in \<open>nulls select\<close> the error is raised
  while \<open>select\<close> waits in the lookahead slot. The grammar stores the tree of a
  \<open>select\<close> as soon as it has read the word.
\<close>

definition demo_rules :: "(string, nat) lexical_rules" where
  "demo_rules str =
     (if str = ''select'' then ([Token (OTHER 1) ''select'' 0], [], 6)
      else if str = ''select @'' then ([Token (OTHER 1) ''select'' 0, Lexical_error], [], 8)
      else if str = ''select )'' then
        ([Token (OTHER 1) ''select'' 0, Token (OTHER 2) '')'' 7], [], 8)
      else if str = ''select ;'' then
        ([Token (OTHER 1) ''select'' 0, Token (OTHER 3) '';'' 7], [], 8)
      else if str = ''nulls select'' then
        ([Token NULLS_P ''nulls'' 0, Token (OTHER 1) ''select'' 6], [], 12)
      else ([], [], 0))"

definition demo_grammar :: "(nat, string, nat, string) grammar" where
  "demo_grammar =
     \<lparr>gram_start = 0,
      gram_token = (\<lambda>p k v l.
         if k = OTHER 1 then (Some [v], Continue (Suc p))
         else if k = OTHER 3 then (None, Finish (Return 1))
         else (None, Finish Raise)),
      gram_eof = (\<lambda>p v l. (None, Return 0))\<rparr>"

section \<open>Auxiliary definitions for the proofs\<close>

text \<open>
  The two halves of \<open>filtered_base_yylex\<close>: lines 103 to 111 fetch the current token,
  lines 114 to 184 look ahead. \<open>keep_for_next\<close> is the default branch of the inner
  switch statements.
\<close>

definition fetch_token :: "('v, 'l, 't) parser_state \<Rightarrow> ('v, 'l, 't) lex_result" where
  "fetch_token st =
     (if have_lookahead st
      then Inr (lookahead_token st,
                st\<lparr>base_yylval := lookahead_yylval st,
                   base_yylloc := lookahead_yylloc st,
                   have_lookahead := False\<rparr>)
      else base_yylex st)"

definition keep_for_next ::
  "token_kind \<Rightarrow> ('v, 'l, 't) parser_state \<Rightarrow> ('v, 'l, 't) parser_state \<Rightarrow> ('v, 'l, 't) parser_state" where
  "keep_for_next next_token st1 st2 =
     st2\<lparr>lookahead_token := next_token,
         lookahead_yylval := base_yylval st2,
         lookahead_yylloc := base_yylloc st2,
         have_lookahead := True,
         base_yylval := base_yylval st1,
         base_yylloc := base_yylloc st1\<rparr>"

definition look_ahead :: "token_kind \<Rightarrow> ('v, 'l, 't) parser_state \<Rightarrow> ('v, 'l, 't) lex_result" where
  "look_ahead cur_token st1 =
     (if cur_token = NULLS_P then
        (case base_yylex st1 of
           Inl err \<Rightarrow> Inl err
         | Inr (next_token, st2) \<Rightarrow>
             if next_token = FIRST_P then Inr (NULLS_FIRST, st2)
             else if next_token = LAST_P then Inr (NULLS_LAST, st2)
             else Inr (cur_token, keep_for_next next_token st1 st2))
      else if cur_token = WITH then
        (case base_yylex st1 of
           Inl err \<Rightarrow> Inl err
         | Inr (next_token, st2) \<Rightarrow>
             if next_token = CASCADED then Inr (WITH_CASCADED, st2)
             else if next_token = LOCAL then Inr (WITH_LOCAL, st2)
             else if next_token = CHECK then Inr (WITH_CHECK, st2)
             else Inr (cur_token, keep_for_next next_token st1 st2))
      else Inr (cur_token, st1))"

text \<open>
  The first \<open>n\<close> tokens that a scanner buffer yields, end-of-input repeated after its
  end.
\<close>

fun toks :: "nat \<Rightarrow> ('v, 'l) lexeme list \<Rightarrow> 'v \<Rightarrow> 'l \<Rightarrow> ('v, 'l) token list" where
  "toks 0 buf ev el = []"
| "toks (Suc n) [] ev el = (YYEOF, ev, el) # toks n [] ev el"
| "toks (Suc n) (Token k v l # buf) ev el = (k, v, l) # toks n buf ev el"
| "toks (Suc n) (Lexical_error # buf) ev el = []"

abbreviation future :: "nat \<Rightarrow> ('v, 'l, 't) parser_state \<Rightarrow> ('v, 'l) token list" where
  "future n st \<equiv> toks n (scan_buf st) (scan_eof_yylval st) (scan_eof_yylloc st)"

text \<open>
  Two states are alike when they agree on everything the engine can still observe: the
  tree list, the scanner, and the lookahead slot when it is full. Two lexer results are the
  same token when they agree on the error or on kind, value and location, and leave states
  that are alike.
\<close>

definition alike :: "('v, 'l, 't) parser_state \<Rightarrow> ('v, 'l, 't) parser_state \<Rightarrow> bool" where
  "alike st st' \<longleftrightarrow>
     parsetree st = parsetree st' \<and> scan_buf st = scan_buf st' \<and>
     scan_eof_yylval st = scan_eof_yylval st' \<and> scan_eof_yylloc st = scan_eof_yylloc st' \<and>
     have_lookahead st = have_lookahead st' \<and>
     (have_lookahead st \<longrightarrow>
        lookahead_token st = lookahead_token st' \<and>
        lookahead_yylval st = lookahead_yylval st' \<and>
        lookahead_yylloc st = lookahead_yylloc st')"

definition same_token :: "('v, 'l, 't) lex_result \<Rightarrow> ('v, 'l, 't) lex_result \<Rightarrow> bool" where
  "same_token r r' \<longleftrightarrow>
     failure_of r = failure_of r' \<and> observed r = observed r' \<and>
     (failure_of r = None \<longrightarrow> alike (final_state r) (final_state r'))"

section \<open>Lemmas\<close>

subsection \<open>The filter, call by call\<close>

lemma filtered_base_yylex_split:
  "filtered_base_yylex st =
     (case fetch_token st of Inl err \<Rightarrow> Inl err | Inr (cur_token, st1) \<Rightarrow> look_ahead cur_token st1)"
  unfolding filter_unfold fetch_token_def look_ahead_def keep_for_next_def
  by (rule refl)

lemma final_state_simps [simp]:
  "final_state (Inl (e, s)) = s" "final_state (Inr (x, s)) = s"
  by (simp_all add: final_state_def)

lemma failure_of_simps [simp]:
  "failure_of (Inl (e, s)) = Some e" "failure_of (Inr x) = None"
  by (simp_all add: failure_of_def)

lemma observed_simps [simp]:
  "observed (Inl x) = None" "observed (Inr (k, s)) = Some (k, base_yylval s, base_yylloc s)"
  by (simp_all add: observed_def)

lemma result_of_simps [simp]:
  "result_of (Inl x) = None" "result_of (Inr (i, s)) = Some (i, parsetree s)"
  by (simp_all add: result_of_def)

lemma scanner_calls_toks:
  "scanner_calls n st = toks n (scan_buf st) (scan_eof_yylval st) (scan_eof_yylloc st)"
proof (induction n arbitrary: st)
  case 0
  show ?case by simp
next
  case (Suc n)
  show ?case
  proof (cases "scan_buf st")
    case Nil
    then show ?thesis by (simp add: base_yylex_def Suc.IH)
  next
    case (Cons x buf)
    then show ?thesis by (cases x) (simp_all add: base_yylex_def Suc.IH)
  qed
qed

lemma fetch_token_step:
  assumes "Lexical_error \<notin> set (scan_buf st)"
  shows "\<exists>cur st1. fetch_token st = Inr (cur, st1) \<and>
           \<not> have_lookahead st1 \<and> Lexical_error \<notin> set (scan_buf st1) \<and>
           scan_pos st + 1 = scan_pos st1 + length (pending st) \<and>
           (\<forall>n. pending st @ future (scan_pos st1 - scan_pos st + n) st =
                (cur, base_yylval st1, base_yylloc st1) # future n st1)"
proof (cases "have_lookahead st")
  case True
  with assms show ?thesis by (simp add: fetch_token_def pending_def)
next
  case False
  note nolook = this
  show ?thesis
  proof (cases "scan_buf st")
    case Nil
    with nolook show ?thesis by (simp add: fetch_token_def pending_def base_yylex_def)
  next
    case (Cons x buf)
    with assms obtain k v l where "x = Token k v l" by (cases x) auto
    with Cons nolook assms show ?thesis
      by (simp add: fetch_token_def pending_def base_yylex_def)
  qed
qed

lemma look_ahead_step:
  assumes "\<not> have_lookahead st1" and "Lexical_error \<notin> set (scan_buf st1)"
  shows "\<exists>g k st'. look_ahead cur st1 = Inr (k, st') \<and>
           stands_for (k, base_yylval st', base_yylloc st') g \<and>
           Lexical_error \<notin> set (scan_buf st') \<and>
           scan_pos st1 \<le> scan_pos st' \<and>
           scan_pos st' + 1 = scan_pos st1 + length g + length (pending st') \<and>
           (\<forall>n. (cur, base_yylval st1, base_yylloc st1) # future (scan_pos st' - scan_pos st1 + n) st1 =
                g @ pending st' @ future n st')"
proof -
  let ?c = "(cur, base_yylval st1, base_yylloc st1)"
  consider (plain) "cur \<noteq> NULLS_P" "cur \<noteq> WITH"
    | (at_end) "cur = NULLS_P \<or> cur = WITH" "scan_buf st1 = []"
    | (merge) nx v l buf m where "scan_buf st1 = Token nx v l # buf" "(cur, nx, m) \<in> merge_table"
    | (keep) nx v l buf where "cur = NULLS_P \<or> cur = WITH" "scan_buf st1 = Token nx v l # buf"
        "\<forall>m. (cur, nx, m) \<notin> merge_table"
  proof (cases "cur = NULLS_P \<or> cur = WITH")
    case False
    then show ?thesis using plain by simp
  next
    case True
    note trig = this
    show ?thesis
    proof (cases "scan_buf st1")
      case Nil
      with trig show ?thesis using at_end by simp
    next
      case (Cons x buf)
      with assms(2) obtain nx v l where x: "x = Token nx v l" by (cases x) auto
      show ?thesis
      proof (cases "\<exists>m. (cur, nx, m) \<in> merge_table")
        case True
        with Cons x show ?thesis using merge by blast
      next
        case False
        with Cons x trig show ?thesis using keep by blast
      qed
    qed
  qed
  then show ?thesis
  proof cases
    case plain
    with assms show ?thesis
      by (intro exI[of _ "[?c]"]) (simp add: look_ahead_def pending_def)
  next
    case at_end
    with assms show ?thesis
      by (intro exI[of _ "[?c]"])
         (auto simp add: look_ahead_def pending_def base_yylex_def keep_for_next_def)
  next
    case merge
    from merge(2) assms merge(1) show ?thesis
      unfolding merge_table_def
      by (intro exI[of _ "[?c, (nx, v, l)]"])
         (elim insertE emptyE;
          simp add: look_ahead_def pending_def base_yylex_def merge_table_def)
  next
    case keep
    have nulls: "cur = NULLS_P \<Longrightarrow> nx \<noteq> FIRST_P \<and> nx \<noteq> LAST_P"
      using keep(3) by (auto simp: merge_table_def)
    have withs: "cur = WITH \<Longrightarrow> nx \<noteq> CASCADED \<and> nx \<noteq> LOCAL \<and> nx \<noteq> CHECK"
      using keep(3) by (auto simp: merge_table_def)
    from keep(1) nulls withs assms keep(2) show ?thesis
      by (intro exI[of _ "[?c]"])
         (elim disjE; simp add: look_ahead_def pending_def base_yylex_def keep_for_next_def)
  qed
qed

lemma filter_step:
  assumes "Lexical_error \<notin> set (scan_buf st)"
  shows "\<exists>g k st'. filtered_base_yylex st = Inr (k, st') \<and>
           stands_for (k, base_yylval st', base_yylloc st') g \<and>
           Lexical_error \<notin> set (scan_buf st') \<and>
           scan_pos st \<le> scan_pos st' \<and>
           scan_pos st' + length (pending st) = scan_pos st + length g + length (pending st') \<and>
           (\<forall>n. pending st @ future (scan_pos st' - scan_pos st + n) st =
                g @ pending st' @ future n st')"
proof -
  from fetch_token_step [OF assms] obtain cur st1 where
    f: "fetch_token st = Inr (cur, st1)" and nl: "\<not> have_lookahead st1"
    and ne: "Lexical_error \<notin> set (scan_buf st1)"
    and p1: "scan_pos st + 1 = scan_pos st1 + length (pending st)"
    and t1: "\<And>n. pending st @ future (scan_pos st1 - scan_pos st + n) st =
                (cur, base_yylval st1, base_yylloc st1) # future n st1"
    by blast
  from look_ahead_step [OF nl ne, of cur] obtain g k st' where
    l: "look_ahead cur st1 = Inr (k, st')"
    and sf: "stands_for (k, base_yylval st', base_yylloc st') g"
    and ne': "Lexical_error \<notin> set (scan_buf st')"
    and mono: "scan_pos st1 \<le> scan_pos st'"
    and p2: "scan_pos st' + 1 = scan_pos st1 + length g + length (pending st')"
    and t2: "\<And>n. (cur, base_yylval st1, base_yylloc st1) # future (scan_pos st' - scan_pos st1 + n) st1 =
                g @ pending st' @ future n st'"
    by blast
  have le1: "length (pending st) \<le> 1" by (simp add: pending_def)
  have mono1: "scan_pos st \<le> scan_pos st1" using p1 le1 by linarith
  have "filtered_base_yylex st = Inr (k, st')"
    by (simp add: filtered_base_yylex_split f l)
  moreover have "scan_pos st \<le> scan_pos st'" using mono mono1 by linarith
  moreover have "scan_pos st' + length (pending st) = scan_pos st + length g + length (pending st')"
    using p1 p2 by linarith
  moreover have "pending st @ future (scan_pos st' - scan_pos st + n) st =
                g @ pending st' @ future n st'" for n
  proof -
    have e: "scan_pos st' - scan_pos st + n = scan_pos st1 - scan_pos st + (scan_pos st' - scan_pos st1 + n)"
      using mono mono1 by linarith
    show ?thesis unfolding e t1 t2 by simp
  qed
  ultimately show ?thesis using sf ne' by blast
qed

lemma stands_for_nonempty: "stands_for out g \<Longrightarrow> g \<noteq> []"
  by (cases g) auto

lemma filter_calls_account:
  assumes "Lexical_error \<notin> set (scan_buf st)"
  shows "\<exists>groups out st'. filter_calls m st = Inr (out, st') \<and>
           list_all2 stands_for out groups \<and>
           scan_pos st \<le> scan_pos st' \<and>
           scan_pos st' + length (pending st) =
             scan_pos st + length (concat groups) + length (pending st') \<and>
           m \<le> length (concat groups) \<and>
           (\<forall>n. pending st @ future (scan_pos st' - scan_pos st + n) st =
                concat groups @ pending st' @ future n st')"
  using assms
proof (induction m arbitrary: st)
  case 0
  show ?case by (intro exI[of _ "[]"]) simp
next
  case (Suc m)
  from filter_step [OF Suc.prems] obtain g k st1 where
    f: "filtered_base_yylex st = Inr (k, st1)"
    and sf: "stands_for (k, base_yylval st1, base_yylloc st1) g"
    and ne: "Lexical_error \<notin> set (scan_buf st1)"
    and mono1: "scan_pos st \<le> scan_pos st1"
    and p1: "scan_pos st1 + length (pending st) = scan_pos st + length g + length (pending st1)"
    and t1: "\<And>n. pending st @ future (scan_pos st1 - scan_pos st + n) st =
                g @ pending st1 @ future n st1"
    by blast
  from Suc.IH [OF ne] obtain groups out st' where
    c: "filter_calls m st1 = Inr (out, st')"
    and all: "list_all2 stands_for out groups"
    and mono2: "scan_pos st1 \<le> scan_pos st'"
    and p2: "scan_pos st' + length (pending st1) =
             scan_pos st1 + length (concat groups) + length (pending st')"
    and len: "m \<le> length (concat groups)"
    and t2: "\<And>n. pending st1 @ future (scan_pos st' - scan_pos st1 + n) st1 =
                concat groups @ pending st' @ future n st'"
    by blast
  have glen: "1 \<le> length g" using stands_for_nonempty [OF sf] by (cases g) auto
  have "filter_calls (Suc m) st = Inr ((k, base_yylval st1, base_yylloc st1) # out, st')"
    by (simp add: f c)
  moreover have "list_all2 stands_for ((k, base_yylval st1, base_yylloc st1) # out) (g # groups)"
    using sf all by simp
  moreover have "scan_pos st \<le> scan_pos st'" using mono1 mono2 by linarith
  moreover have "scan_pos st' + length (pending st) =
             scan_pos st + length (concat (g # groups)) + length (pending st')"
    using p1 p2 by simp
  moreover have "Suc m \<le> length (concat (g # groups))" using len glen by simp
  moreover have "pending st @ future (scan_pos st' - scan_pos st + n) st =
                concat (g # groups) @ pending st' @ future n st'" for n
  proof -
    have e: "scan_pos st' - scan_pos st + n = scan_pos st1 - scan_pos st + (scan_pos st' - scan_pos st1 + n)"
      using mono1 mono2 by linarith
    show ?thesis unfolding e t1 t2 by simp
  qed
  ultimately show ?case by blast
qed

subsection \<open>What the engine leaves untouched\<close>

lemma base_yylex_frame:
  "pool_memory (final_state (base_yylex st)) = pool_memory st \<and>
   calls (final_state (base_yylex st)) = calls st"
  unfolding base_yylex_def
  by (simp split: list.split lexeme.split)

lemma fetch_token_frame:
  "pool_memory (final_state (fetch_token st)) = pool_memory st \<and>
   calls (final_state (fetch_token st)) = calls st"
  unfolding fetch_token_def
  by (simp add: base_yylex_frame)

lemma look_ahead_frame:
  "pool_memory (final_state (look_ahead cur st)) = pool_memory st \<and>
   calls (final_state (look_ahead cur st)) = calls st"
proof (cases "base_yylex st")
  case (Inl a)
  with base_yylex_frame [of st] show ?thesis
    by (cases a) (simp add: look_ahead_def)
next
  case (Inr b)
  with base_yylex_frame [of st] show ?thesis
    by (cases b) (simp add: look_ahead_def keep_for_next_def)
qed

lemma filter_frame:
  "pool_memory (final_state (filtered_base_yylex st)) = pool_memory st \<and>
   calls (final_state (filtered_base_yylex st)) = calls st"
proof (cases "fetch_token st")
  case (Inl a)
  with fetch_token_frame [of st] show ?thesis
    by (cases a) (simp add: filtered_base_yylex_split)
next
  case (Inr b)
  with fetch_token_frame [of st] show ?thesis
    by (cases b) (simp add: filtered_base_yylex_split look_ahead_frame)
qed

lemma store_tree_frame [simp]:
  "pool_memory (store_tree w st) = pool_memory st" "calls (store_tree w st) = calls st"
  by (simp_all add: store_tree_def split: option.split)

lemma ended_frame [simp]: "final_state (ended e st) = st"
  by (simp add: ended_def split: ending.split)

lemma yyparse_loop_frame:
  "pool_memory (final_state (yyparse_loop g p st)) = pool_memory st \<and>
   calls (final_state (yyparse_loop g p st)) = calls st"
proof (induction g p st rule: yyparse_loop.induct)
  case (1 g p st)
  show ?case
  proof (cases "filtered_base_yylex st")
    case (Inl a)
    with filter_frame [of st] show ?thesis
      by (cases a) (simp add: yyparse_loop.simps [of g p st])
  next
    case (Inr b)
    obtain tok st1 where b: "b = (tok, st1)" by (cases b)
    from filter_frame [of st] Inr b
    have fr: "pool_memory st1 = pool_memory st \<and> calls st1 = calls st" by simp
    show ?thesis
    proof (cases "tok = YYEOF")
      case True
      with Inr b fr show ?thesis
        by (simp add: yyparse_loop.simps [of g p st] split: prod.split)
    next
      case False
      obtain w r where gt: "gram_token g p tok (base_yylval st1) (base_yylloc st1) = (w, r)"
        by (cases "gram_token g p tok (base_yylval st1) (base_yylloc st1)")
      show ?thesis
      proof (cases r)
        case (Continue p')
        from "1.IH" [OF Inr b [symmetric] False gt [symmetric] Continue] fr
        have "pool_memory (final_state (yyparse_loop g p' (store_tree w st1))) = pool_memory st \<and>
              calls (final_state (yyparse_loop g p' (store_tree w st1))) = calls st"
          by simp
        with Inr b False gt Continue show ?thesis
          by (simp add: yyparse_loop.simps [of g p st])
      next
        case (Finish e)
        with Inr b False gt fr show ?thesis
          by (simp add: yyparse_loop.simps [of g p st])
      qed
    qed
  qed
qed

lemma raw_parser_state:
  "snd (raw_parser g rules str st) =
     scanner_finish (final_state (base_yyparse g (raw_parser_setup rules str st)))"
  unfolding raw_parser_def Let_def
  by (simp split: sum.split prod.split)

lemma setup_pool:
  "pool_memory (raw_parser_setup rules str st) =
     (if pool_memory st = None then Some (length (calls st)) else pool_memory st)"
  unfolding raw_parser_setup_def Let_def pool_memory_create_def scanner_init_def parser_init_def
  by (simp split: prod.split)

lemma setup_calls:
  "calls (raw_parser_setup rules str st) =
     calls st @ (if pool_memory st = None then [Pool_memory_create (length (calls st))] else [])
       @ [Scanner_init str, Parser_init]"
  unfolding raw_parser_setup_def Let_def pool_memory_create_def scanner_init_def parser_init_def
  by (simp split: prod.split)

subsection \<open>What the engine depends on\<close>

lemma base_yylex_alike:
  assumes "alike st st'"
  shows "same_token (base_yylex st) (base_yylex st')"
proof -
  from assms have sb: "scan_buf st' = scan_buf st" by (simp add: alike_def)
  show ?thesis
  proof (cases "scan_buf st")
    case Nil
    moreover from Nil sb have "scan_buf st' = []" by simp
    ultimately show ?thesis using assms
      by (simp add: alike_def same_token_def base_yylex_def)
  next
    case (Cons x buf)
    moreover from Cons sb have "scan_buf st' = x # buf" by simp
    ultimately show ?thesis using assms
      by (cases x) (simp_all add: alike_def same_token_def base_yylex_def)
  qed
qed

lemma fetch_token_alike:
  assumes "alike st st'"
  shows "same_token (fetch_token st) (fetch_token st')"
proof (cases "have_lookahead st")
  case True
  with assms have "have_lookahead st'" by (simp add: alike_def)
  with True assms show ?thesis
    by (simp add: fetch_token_def same_token_def alike_def)
next
  case False
  with assms have "\<not> have_lookahead st'" by (simp add: alike_def)
  with False base_yylex_alike [OF assms] show ?thesis
    by (simp add: fetch_token_def)
qed

lemma look_ahead_alike:
  assumes a: "alike s s'" and v: "base_yylval s = base_yylval s'"
    and l: "base_yylloc s = base_yylloc s'"
  shows "same_token (look_ahead cur s) (look_ahead cur s')"
proof (cases "cur = NULLS_P \<or> cur = WITH")
  case False
  with a v l show ?thesis by (simp add: look_ahead_def same_token_def)
next
  case True
  note trig = this
  from base_yylex_alike [OF a] have st: "same_token (base_yylex s) (base_yylex s')" .
  show ?thesis
  proof (cases "base_yylex s")
    case (Inl x)
    obtain e s1 where x: "x = (e, s1)" by (cases x)
    from st Inl x obtain s1' where "base_yylex s' = Inl (e, s1')"
      by (cases "base_yylex s'") (auto simp: same_token_def)
    with Inl x trig show ?thesis by (auto simp: look_ahead_def same_token_def)
  next
    case (Inr y)
    obtain nx s2 where y: "y = (nx, s2)" by (cases y)
    from st Inr y obtain s2' where r': "base_yylex s' = Inr (nx, s2')"
      and al: "alike s2 s2'" and v2: "base_yylval s2 = base_yylval s2'"
      and l2: "base_yylloc s2 = base_yylloc s2'"
      by (cases "base_yylex s'") (auto simp: same_token_def)
    from al v2 l2 v l
    have k: "alike (keep_for_next nx s s2) (keep_for_next nx s' s2')"
      "base_yylval (keep_for_next nx s s2) = base_yylval (keep_for_next nx s' s2')"
      "base_yylloc (keep_for_next nx s s2) = base_yylloc (keep_for_next nx s' s2')"
      by (simp_all add: alike_def keep_for_next_def)
    from trig Inr y r' al v2 l2 k show ?thesis
      by (auto simp: look_ahead_def same_token_def)
  qed
qed

lemma filter_alike:
  assumes "alike st st'"
  shows "same_token (filtered_base_yylex st) (filtered_base_yylex st')"
proof -
  from fetch_token_alike [OF assms] have st: "same_token (fetch_token st) (fetch_token st')" .
  show ?thesis
  proof (cases "fetch_token st")
    case (Inl x)
    obtain e s1 where x: "x = (e, s1)" by (cases x)
    from st Inl x obtain s1' where "fetch_token st' = Inl (e, s1')"
      by (cases "fetch_token st'") (auto simp: same_token_def)
    with Inl x show ?thesis by (simp add: filtered_base_yylex_split same_token_def)
  next
    case (Inr y)
    obtain cur s1 where y: "y = (cur, s1)" by (cases y)
    from st Inr y obtain s1' where r': "fetch_token st' = Inr (cur, s1')"
      and al: "alike s1 s1'" and v: "base_yylval s1 = base_yylval s1'"
      and l: "base_yylloc s1 = base_yylloc s1'"
      by (cases "fetch_token st'") (auto simp: same_token_def)
    from look_ahead_alike [OF al v l, of cur] Inr y r' show ?thesis
      by (simp add: filtered_base_yylex_split)
  qed
qed

lemma store_tree_alike:
  "alike s s' \<Longrightarrow> alike (store_tree w s) (store_tree w s')"
  by (simp add: alike_def store_tree_def split: option.split)

lemma ended_same:
  "parsetree s = parsetree s' \<Longrightarrow>
     failure_of (ended e s) = failure_of (ended e s') \<and> result_of (ended e s) = result_of (ended e s')"
  by (simp add: ended_def split: ending.split)

lemma yyparse_loop_alike:
  "alike st st' \<Longrightarrow>
     failure_of (yyparse_loop g p st) = failure_of (yyparse_loop g p st') \<and>
     result_of (yyparse_loop g p st) = result_of (yyparse_loop g p st')"
proof (induction g p st arbitrary: st' rule: yyparse_loop.induct)
  case (1 g p st)
  from filter_alike [OF "1.prems"]
  have st: "same_token (filtered_base_yylex st) (filtered_base_yylex st')" .
  show ?case
  proof (cases "filtered_base_yylex st")
    case (Inl x)
    obtain e s1 where x: "x = (e, s1)" by (cases x)
    from st Inl x obtain s1' where "filtered_base_yylex st' = Inl (e, s1')"
      by (cases "filtered_base_yylex st'") (auto simp: same_token_def)
    with Inl x show ?thesis
      by (simp add: yyparse_loop.simps [of g p st] yyparse_loop.simps [of g p st'])
  next
    case (Inr y)
    obtain tok s1 where y: "y = (tok, s1)" by (cases y)
    from st Inr y obtain s1' where r': "filtered_base_yylex st' = Inr (tok, s1')"
      and al: "alike s1 s1'" and v: "base_yylval s1 = base_yylval s1'"
      and l: "base_yylloc s1 = base_yylloc s1'"
      by (cases "filtered_base_yylex st'") (auto simp: same_token_def)
    show ?thesis
    proof (cases "tok = YYEOF")
      case True
      obtain w e where ge: "gram_eof g p (base_yylval s1) (base_yylloc s1) = (w, e)"
        by (cases "gram_eof g p (base_yylval s1) (base_yylloc s1)")
      from store_tree_alike [OF al, of w]
      have "parsetree (store_tree w s1) = parsetree (store_tree w s1')" by (simp add: alike_def)
      from ended_same [OF this, of e] Inr y r' True ge v l show ?thesis
        by (simp add: yyparse_loop.simps [of g p st] yyparse_loop.simps [of g p st'])
    next
      case False
      obtain w r where gt: "gram_token g p tok (base_yylval s1) (base_yylloc s1) = (w, r)"
        by (cases "gram_token g p tok (base_yylval s1) (base_yylloc s1)")
      show ?thesis
      proof (cases r)
        case (Continue p')
        from "1.IH" [OF Inr y [symmetric] False gt [symmetric] Continue store_tree_alike [OF al]]
        have "failure_of (yyparse_loop g p' (store_tree w s1)) =
                failure_of (yyparse_loop g p' (store_tree w s1')) \<and>
              result_of (yyparse_loop g p' (store_tree w s1)) =
                result_of (yyparse_loop g p' (store_tree w s1'))" .
        with Inr y r' False gt Continue v l show ?thesis
          by (simp add: yyparse_loop.simps [of g p st] yyparse_loop.simps [of g p st'])
      next
        case (Finish e)
        from store_tree_alike [OF al, of w]
        have "parsetree (store_tree w s1) = parsetree (store_tree w s1')" by (simp add: alike_def)
        from ended_same [OF this, of e] Inr y r' False gt Finish v l show ?thesis
          by (simp add: yyparse_loop.simps [of g p st] yyparse_loop.simps [of g p st'])
      qed
    qed
  qed
qed

lemma raw_parser_result:
  "fst (raw_parser g rules str st) =
     (case result_of (base_yyparse g (raw_parser_setup rules str st)) of
        None \<Rightarrow> []
      | Some (yyresult, trees) \<Rightarrow> if yyresult \<noteq> 0 then [] else trees)"
  unfolding raw_parser_def Let_def
  by (simp add: scanner_finish_def split: sum.split prod.split)

lemma setup_alike:
  "alike (raw_parser_setup rules str st) (raw_parser_setup rules str st')"
  unfolding raw_parser_setup_def Let_def pool_memory_create_def scanner_init_def parser_init_def
  by (simp add: alike_def split: prod.split)

section \<open>Merging a trigger with its continuation\<close>

text \<open>
  Claim C1. When a trigger token is immediately followed by one of its registered
  continuations, one call of \<open>filtered_base_yylex\<close> returns the merged synthetic kind
  (NULLS FIRST gives NULLS_FIRST, NULLS LAST gives NULLS_LAST, WITH CASCADED, WITH LOCAL
  and WITH CHECK give WITH_CASCADED, WITH_LOCAL and WITH_CHECK) and the two scanner tokens
  are consumed: with an empty slot the call takes both from the scanner, which advances by
  two; when the trigger waits in the lookahead slot the call takes it from there and the
  continuation from the scanner. The slot is empty afterwards.
\<close>

theorem merge_pair:
  assumes "(t, c, m) \<in> merge_table"
  shows "(\<not> have_lookahead st \<and> scan_buf st = Token t v1 l1 # Token c v2 l2 # rest \<longrightarrow>
            filtered_base_yylex st =
              Inr (m, st\<lparr>scan_buf := rest, scan_pos := scan_pos st + 2,
                          base_yylval := v2, base_yylloc := l2\<rparr>)) \<and>
         (have_lookahead st \<and> lookahead_token st = t \<and> scan_buf st = Token c v2 l2 # rest \<longrightarrow>
            filtered_base_yylex st =
              Inr (m, st\<lparr>have_lookahead := False, scan_buf := rest, scan_pos := scan_pos st + 1,
                          base_yylval := v2, base_yylloc := l2\<rparr>))"
  using assms unfolding merge_table_def
  by (elim insertE emptyE; simp add: filter_unfold base_yylex_def)

theorem merge_pair_witness:
  "filtered_base_yylex
     (fresh_session [Token WITH ''with'' 0, Token CHECK ''check'' 5, Token YYEOF [] 10]) =
   Inr (WITH_CHECK,
        (fresh_session [Token YYEOF [] 10])
          \<lparr>scan_pos := 2, base_yylval := ''check'', base_yylloc := 5\<rparr>) \<and>
   filtered_base_yylex
     ((fresh_session [Token FIRST_P ''first'' 6])
        \<lparr>scan_pos := 1, lookahead_token := NULLS_P, lookahead_yylval := ''nulls'',
         have_lookahead := True\<rparr>) =
   Inr (NULLS_FIRST,
        (fresh_session [])
          \<lparr>scan_pos := 2, lookahead_token := NULLS_P, lookahead_yylval := ''nulls'',
           base_yylval := ''first'', base_yylloc := 6\<rparr>)"
    (is "?a \<and> ?b")
proof -
  have a: "?a"
    using merge_pair [of WITH CHECK WITH_CHECK
      "fresh_session [Token WITH ''with'' 0, Token CHECK ''check'' 5, Token YYEOF [] 10]"
      "''with''" 0 "''check''" 5 "[Token YYEOF [] 10]"]
    by (simp add: merge_table_def fresh_session_def)
  have b: "?b"
    using merge_pair [of NULLS_P FIRST_P NULLS_FIRST
      "(fresh_session [Token FIRST_P ''first'' 6])
        \<lparr>scan_pos := 1, lookahead_token := NULLS_P, lookahead_yylval := ''nulls'',
         have_lookahead := True\<rparr>"
      "''nulls''" 0 "''first''" 6 "[]"]
    by (simp add: merge_table_def fresh_session_def numeral_2_eq_2)
  show ?thesis using a b by (intro conjI)
qed

section \<open>The payload of a merged token\<close>

text \<open>
  The merge branches (parser.c lines 125 to 130 and 160 to 168) only change
  \<open>cur_token\<close>: \<open>base_yylval\<close> and \<open>base_yylloc\<close> stay as the second call of
  \<open>base_yylex\<close> left them. For NULLS at offset 7 followed by FIRST at offset 13 the
  merged NULLS_FIRST is returned with the value and location of FIRST, not of NULLS.
\<close>

theorem merged_payload_counterexample:
  "observed (filtered_base_yylex
       (fresh_session [Token NULLS_P ''nulls'' 7, Token FIRST_P ''first'' 13])) =
     Some (NULLS_FIRST, ''first'', 13) \<and>
   observed (filtered_base_yylex
       (fresh_session [Token NULLS_P ''nulls'' 7, Token FIRST_P ''first'' 13])) \<noteq>
     Some (NULLS_FIRST, ''nulls'', 7)"
  by (simp add: observed_def fresh_session_def filter_unfold base_yylex_def)

text \<open>
  Claim C2, as amended. Whenever \<open>filtered_base_yylex\<close> merges a trigger token with its
  continuation, the merged token is returned with \<open>base_yylval\<close> and \<open>base_yylloc\<close>
  holding the value and location of the continuation token (the second token); the value
  and location of the trigger, saved in \<open>cur_yylval\<close> and \<open>cur_yylloc\<close>, are not
  restored on this path. This holds whether the trigger came from the scanner or from the
  lookahead slot.
\<close>

theorem merged_payload:
  assumes "(t, c, m) \<in> merge_table"
  shows "(\<not> have_lookahead st \<and> scan_buf st = Token t v1 l1 # Token c v2 l2 # rest \<longrightarrow>
            observed (filtered_base_yylex st) = Some (m, v2, l2)) \<and>
         (have_lookahead st \<and> lookahead_token st = t \<and> lookahead_yylval st = v1 \<and>
          lookahead_yylloc st = l1 \<and> scan_buf st = Token c v2 l2 # rest \<longrightarrow>
            observed (filtered_base_yylex st) = Some (m, v2, l2))"
  using assms unfolding merge_table_def
  by (elim insertE emptyE; simp add: observed_def filter_unfold base_yylex_def)

theorem merged_payload_witness:
  "observed (filtered_base_yylex
       (fresh_session [Token WITH ''with'' 0, Token LOCAL ''local'' 5])) =
     Some (WITH_LOCAL, ''local'', 5) \<and>
   observed (filtered_base_yylex
       ((fresh_session [Token LAST_P ''last'' 6])
          \<lparr>scan_pos := 1, lookahead_token := NULLS_P, lookahead_yylval := ''nulls'',
           have_lookahead := True\<rparr>)) =
     Some (NULLS_LAST, ''last'', 6)"
    (is "?a \<and> ?b")
proof -
  have a: "?a"
    using merged_payload [of WITH LOCAL WITH_LOCAL
      "fresh_session [Token WITH ''with'' 0, Token LOCAL ''local'' 5]"
      "''with''" 0 "''local''" 5 "[]"]
    by (simp add: merge_table_def fresh_session_def)
  have b: "?b"
    using merged_payload [of NULLS_P LAST_P NULLS_LAST
      "(fresh_session [Token LAST_P ''last'' 6])
          \<lparr>scan_pos := 1, lookahead_token := NULLS_P, lookahead_yylval := ''nulls'',
           have_lookahead := True\<rparr>"
      "''nulls''" 0 "''last''" 6 "[]"]
    by (simp add: merge_table_def fresh_session_def)
  show ?thesis using a b by (intro conjI)
qed

section \<open>A trigger that is not followed by a continuation\<close>

text \<open>
  When the token after a trigger is itself a trigger, the next call does not return it
  unchanged after two scanner tokens: for WITH WITH CHECK the second call takes the
  buffered WITH, reads CHECK, and returns WITH_CHECK, and the scanner has then produced
  three tokens.
\<close>

theorem unmerged_trigger_counterexample:
  "filtered_base_yylex
     (fresh_session [Token WITH ''w1'' 0, Token WITH ''w2'' 5, Token CHECK ''check'' 10]) =
   Inr (WITH,
        (fresh_session [Token CHECK ''check'' 10])
          \<lparr>scan_pos := 2, lookahead_token := WITH, lookahead_yylval := ''w2'',
           lookahead_yylloc := 5, have_lookahead := True,
           base_yylval := ''w1'', base_yylloc := 0\<rparr>) \<and>
   filtered_base_yylex
     ((fresh_session [Token CHECK ''check'' 10])
          \<lparr>scan_pos := 2, lookahead_token := WITH, lookahead_yylval := ''w2'',
           lookahead_yylloc := 5, have_lookahead := True,
           base_yylval := ''w1'', base_yylloc := 0\<rparr>) =
   Inr (WITH_CHECK,
        (fresh_session [])
          \<lparr>scan_pos := 3, lookahead_token := WITH, lookahead_yylval := ''w2'',
           lookahead_yylloc := 5, base_yylval := ''check'', base_yylloc := 10\<rparr>)"
  by (simp add: fresh_session_def filter_unfold base_yylex_def)

text \<open>
  Claim C3, as amended. When a trigger token (NULLS or WITH) is followed by a token that
  is neither one of its registered continuations nor itself a trigger, the call returns the
  trigger unmerged with its own value and location restored, and buffers the second token
  (same kind, value, location) in the lookahead slot; the next call returns that second
  token with its value and location and reads nothing from the scanner. With an empty slot
  at the start the scanner advances by exactly two tokens across the two calls; when the
  trigger itself came out of the slot, by one.
\<close>

theorem unmerged_trigger:
  assumes "t = NULLS_P \<or> t = WITH"
    and "k \<noteq> NULLS_P" and "k \<noteq> WITH"
    and "\<forall>m. (t, k, m) \<notin> merge_table"
    and "st1 = st\<lparr>scan_buf := rest, lookahead_token := k, lookahead_yylval := v2,
                   lookahead_yylloc := l2, have_lookahead := True,
                   base_yylval := v1, base_yylloc := l1\<rparr>"
  shows "(\<not> have_lookahead st \<and> scan_buf st = Token t v1 l1 # Token k v2 l2 # rest \<longrightarrow>
            filtered_base_yylex st = Inr (t, st1\<lparr>scan_pos := scan_pos st + 2\<rparr>) \<and>
            filtered_base_yylex (st1\<lparr>scan_pos := scan_pos st + 2\<rparr>) =
              Inr (k, st1\<lparr>scan_pos := scan_pos st + 2, have_lookahead := False,
                          base_yylval := v2, base_yylloc := l2\<rparr>)) \<and>
         (have_lookahead st \<and> lookahead_token st = t \<and> lookahead_yylval st = v1 \<and>
          lookahead_yylloc st = l1 \<and> scan_buf st = Token k v2 l2 # rest \<longrightarrow>
            filtered_base_yylex st = Inr (t, st1\<lparr>scan_pos := scan_pos st + 1\<rparr>) \<and>
            filtered_base_yylex (st1\<lparr>scan_pos := scan_pos st + 1\<rparr>) =
              Inr (k, st1\<lparr>scan_pos := scan_pos st + 1, have_lookahead := False,
                          base_yylval := v2, base_yylloc := l2\<rparr>))"
proof -
  have nulls: "t = NULLS_P \<Longrightarrow> k \<noteq> FIRST_P \<and> k \<noteq> LAST_P"
    using assms(4) by (auto simp: merge_table_def)
  have withs: "t = WITH \<Longrightarrow> k \<noteq> CASCADED \<and> k \<noteq> LOCAL \<and> k \<noteq> CHECK"
    using assms(4) by (auto simp: merge_table_def)
  from assms(1) show ?thesis
  proof
    assume "t = NULLS_P"
    with nulls assms(2,3,5) show ?thesis
      by (simp add: filter_unfold base_yylex_def)
  next
    assume "t = WITH"
    with withs assms(2,3,5) show ?thesis
      by (simp add: filter_unfold base_yylex_def)
  qed
qed

theorem unmerged_trigger_witness:
  "filtered_base_yylex
     (fresh_session [Token WITH ''with'' 0, Token (OTHER 1) ''select'' 5, Token YYEOF [] 11]) =
   Inr (WITH,
        (fresh_session [Token YYEOF [] 11])
          \<lparr>lookahead_token := OTHER 1, lookahead_yylval := ''select'', lookahead_yylloc := 5,
           have_lookahead := True, base_yylval := ''with'', base_yylloc := 0, scan_pos := 2\<rparr>) \<and>
   filtered_base_yylex
     ((fresh_session [Token YYEOF [] 11])
          \<lparr>lookahead_token := OTHER 1, lookahead_yylval := ''select'', lookahead_yylloc := 5,
           have_lookahead := True, base_yylval := ''with'', base_yylloc := 0, scan_pos := 2\<rparr>) =
   Inr (OTHER 1,
        (fresh_session [Token YYEOF [] 11])
          \<lparr>lookahead_token := OTHER 1, lookahead_yylval := ''select'', lookahead_yylloc := 5,
           base_yylval := ''select'', base_yylloc := 5, scan_pos := 2\<rparr>) \<and>
   filtered_base_yylex
     ((fresh_session [Token (OTHER 1) ''select'' 6])
          \<lparr>lookahead_token := NULLS_P, lookahead_yylval := ''nulls'', have_lookahead := True,
           scan_pos := 1\<rparr>) =
   Inr (NULLS_P,
        (fresh_session [])
          \<lparr>lookahead_token := OTHER 1, lookahead_yylval := ''select'', lookahead_yylloc := 6,
           have_lookahead := True, base_yylval := ''nulls'', scan_pos := 2\<rparr>)"
    (is "?a \<and> ?b \<and> ?c")
proof -
  have ab: "?a \<and> ?b"
    using unmerged_trigger [where t = WITH and k = "OTHER 1" and ?v1.0 = "''with''" and ?l1.0 = 0
      and ?v2.0 = "''select''" and ?l2.0 = 5 and rest = "[Token YYEOF [] 11]"
      and st = "fresh_session [Token WITH ''with'' 0, Token (OTHER 1) ''select'' 5, Token YYEOF [] 11]",
      OF _ _ _ _ refl]
    by (simp add: merge_table_def fresh_session_def numeral_2_eq_2)
  have c: "?c"
    using unmerged_trigger [where t = NULLS_P and k = "OTHER 1" and ?v1.0 = "''nulls''"
      and ?l1.0 = 0 and ?v2.0 = "''select''" and ?l2.0 = 6 and rest = "[]"
      and st = "(fresh_session [Token (OTHER 1) ''select'' 6])
          \<lparr>lookahead_token := NULLS_P, lookahead_yylval := ''nulls'', have_lookahead := True,
           scan_pos := 1\<rparr>",
      OF _ _ _ _ refl]
    by (simp add: merge_table_def fresh_session_def numeral_2_eq_2)
  from ab have a: "?a" by (rule conjunct1)
  from ab have b: "?b" by (rule conjunct2)
  show ?thesis using a b c by (intro conjI)
qed

section \<open>The lookahead slot\<close>

text \<open>
  Claim C4. The lookahead slot holds at most one token. A call that finds a token in the
  slot behaves exactly as a call with an empty slot whose scanner produces that token
  first: the token is taken out and goes through the same switch as a fresh one. If such a
  call buffers a token again, it has returned the token that was in the slot, with its
  value and location, and has read exactly one token from the scanner. For WITH WITH CHECK
  the first call returns WITH and buffers the second WITH; the second call takes it from
  the slot, looks ahead again, and returns WITH_CHECK with an empty slot.
\<close>

theorem single_slot:
  "length (pending st) \<le> 1 \<and>
   (have_lookahead st \<and> 0 < scan_pos st \<longrightarrow>
      filtered_base_yylex st =
        filtered_base_yylex
          (st\<lparr>have_lookahead := False,
              scan_buf := Token (lookahead_token st) (lookahead_yylval st) (lookahead_yylloc st)
                          # scan_buf st,
              scan_pos := scan_pos st - 1\<rparr>)) \<and>
   (have_lookahead st \<and> filtered_base_yylex st = Inr (k, st') \<and> have_lookahead st' \<longrightarrow>
      k = lookahead_token st \<and> base_yylval st' = lookahead_yylval st \<and>
      base_yylloc st' = lookahead_yylloc st \<and> scan_pos st' = scan_pos st + 1) \<and>
   (\<not> have_lookahead st \<and>
    scan_buf st = Token WITH v1 l1 # Token WITH v2 l2 # Token CHECK v3 l3 # rest \<longrightarrow>
      filtered_base_yylex st =
        Inr (WITH,
             st\<lparr>scan_buf := Token CHECK v3 l3 # rest, scan_pos := scan_pos st + 2,
                lookahead_token := WITH, lookahead_yylval := v2, lookahead_yylloc := l2,
                have_lookahead := True, base_yylval := v1, base_yylloc := l1\<rparr>) \<and>
      filtered_base_yylex
        (st\<lparr>scan_buf := Token CHECK v3 l3 # rest, scan_pos := scan_pos st + 2,
            lookahead_token := WITH, lookahead_yylval := v2, lookahead_yylloc := l2,
            have_lookahead := True, base_yylval := v1, base_yylloc := l1\<rparr>) =
        Inr (WITH_CHECK,
             st\<lparr>scan_buf := rest, scan_pos := scan_pos st + 3,
                lookahead_token := WITH, lookahead_yylval := v2, lookahead_yylloc := l2,
                have_lookahead := False, base_yylval := v3, base_yylloc := l3\<rparr>))"
proof (intro conjI impI)
  show "length (pending st) \<le> 1" by (simp add: pending_def)
next
  assume a: "have_lookahead st \<and> 0 < scan_pos st"
  have "fetch_token st =
        fetch_token
          (st\<lparr>have_lookahead := False,
              scan_buf := Token (lookahead_token st) (lookahead_yylval st) (lookahead_yylloc st)
                          # scan_buf st,
              scan_pos := scan_pos st - 1\<rparr>)"
    using a by (simp add: fetch_token_def base_yylex_def)
  then show "filtered_base_yylex st =
        filtered_base_yylex
          (st\<lparr>have_lookahead := False,
              scan_buf := Token (lookahead_token st) (lookahead_yylval st) (lookahead_yylloc st)
                          # scan_buf st,
              scan_pos := scan_pos st - 1\<rparr>)"
    by (simp only: filtered_base_yylex_split)
next
  assume a: "have_lookahead st \<and> filtered_base_yylex st = Inr (k, st') \<and> have_lookahead st'"
  then have hl: "have_lookahead st" and r: "filtered_base_yylex st = Inr (k, st')"
    and h: "have_lookahead st'"
    by simp_all
  from hl r have f: "look_ahead (lookahead_token st)
          (st\<lparr>base_yylval := lookahead_yylval st, base_yylloc := lookahead_yylloc st,
              have_lookahead := False\<rparr>) = Inr (k, st')"
    by (simp add: filtered_base_yylex_split fetch_token_def)
  from f h
  have "k = lookahead_token st \<and> base_yylval st' = lookahead_yylval st \<and>
      base_yylloc st' = lookahead_yylloc st \<and> scan_pos st' = scan_pos st + 1"
    unfolding look_ahead_def keep_for_next_def base_yylex_def
    by (auto split: if_splits list.splits lexeme.splits)
  then show "k = lookahead_token st" "base_yylval st' = lookahead_yylval st"
      "base_yylloc st' = lookahead_yylloc st" "scan_pos st' = scan_pos st + 1"
    by simp_all
next
  assume a: "\<not> have_lookahead st \<and>
    scan_buf st = Token WITH v1 l1 # Token WITH v2 l2 # Token CHECK v3 l3 # rest"
  then show "filtered_base_yylex st =
        Inr (WITH,
             st\<lparr>scan_buf := Token CHECK v3 l3 # rest, scan_pos := scan_pos st + 2,
                lookahead_token := WITH, lookahead_yylval := v2, lookahead_yylloc := l2,
                have_lookahead := True, base_yylval := v1, base_yylloc := l1\<rparr>)"
    by (simp add: filter_unfold base_yylex_def)
next
  show "filtered_base_yylex
        (st\<lparr>scan_buf := Token CHECK v3 l3 # rest, scan_pos := scan_pos st + 2,
            lookahead_token := WITH, lookahead_yylval := v2, lookahead_yylloc := l2,
            have_lookahead := True, base_yylval := v1, base_yylloc := l1\<rparr>) =
        Inr (WITH_CHECK,
             st\<lparr>scan_buf := rest, scan_pos := scan_pos st + 3,
                lookahead_token := WITH, lookahead_yylval := v2, lookahead_yylloc := l2,
                have_lookahead := False, base_yylval := v3, base_yylloc := l3\<rparr>)"
    by (simp add: filter_unfold base_yylex_def)
qed

theorem single_slot_witness:
  "filtered_base_yylex
     (fresh_session [Token WITH ''with'' 0, Token WITH ''with'' 5, Token CHECK ''check'' 10]) =
   Inr (WITH,
        (fresh_session [Token CHECK ''check'' 10])
          \<lparr>scan_pos := 2, lookahead_token := WITH, lookahead_yylval := ''with'',
           lookahead_yylloc := 5, have_lookahead := True,
           base_yylval := ''with'', base_yylloc := 0\<rparr>) \<and>
   filtered_base_yylex
     ((fresh_session [Token CHECK ''check'' 10])
          \<lparr>scan_pos := 2, lookahead_token := WITH, lookahead_yylval := ''with'',
           lookahead_yylloc := 5, have_lookahead := True,
           base_yylval := ''with'', base_yylloc := 0\<rparr>) =
   Inr (WITH_CHECK,
        (fresh_session [])
          \<lparr>scan_pos := 3, lookahead_token := WITH, lookahead_yylval := ''with'',
           lookahead_yylloc := 5, base_yylval := ''check'', base_yylloc := 10\<rparr>) \<and>
   filtered_base_yylex
     ((fresh_session [Token CHECK ''check'' 10])
          \<lparr>scan_pos := 2, lookahead_token := WITH, lookahead_yylval := ''with'',
           lookahead_yylloc := 5, have_lookahead := True,
           base_yylval := ''with'', base_yylloc := 0\<rparr>) =
   filtered_base_yylex
     ((fresh_session [Token WITH ''with'' 5, Token CHECK ''check'' 10])
          \<lparr>scan_pos := 1, lookahead_token := WITH, lookahead_yylval := ''with'',
           lookahead_yylloc := 5, base_yylval := ''with'', base_yylloc := 0\<rparr>) \<and>
   filtered_base_yylex
     ((fresh_session [Token (OTHER 1) ''select'' 5])
          \<lparr>scan_pos := 1, lookahead_token := WITH, lookahead_yylval := ''with'',
           have_lookahead := True\<rparr>) =
   Inr (WITH,
        (fresh_session [])
          \<lparr>scan_pos := 2, lookahead_token := OTHER 1, lookahead_yylval := ''select'',
           lookahead_yylloc := 5, have_lookahead := True, base_yylval := ''with''\<rparr>) \<and>
   base_yylval
     ((fresh_session [])
          \<lparr>scan_pos := 2, lookahead_token := OTHER 1, lookahead_yylval := ''select'',
           lookahead_yylloc := 5, have_lookahead := True, base_yylval := ''with''\<rparr>) =
   lookahead_yylval
     ((fresh_session [Token (OTHER 1) ''select'' 5])
          \<lparr>scan_pos := 1, lookahead_token := WITH, lookahead_yylval := ''with'',
           have_lookahead := True\<rparr>)"
    (is "?a \<and> ?b \<and> ?c \<and> ?d \<and> ?e")
proof -
  have ab: "?a \<and> ?b"
    using single_slot
      [THEN conjunct2, THEN conjunct2, THEN conjunct2,
       of "fresh_session [Token WITH ''with'' 0, Token WITH ''with'' 5, Token CHECK ''check'' 10]"
          "''with''" 0 "''with''" 5 "''check''" 10 "[]"]
    by (simp add: fresh_session_def numeral_2_eq_2 numeral_3_eq_3)
  have c: "?c"
    using single_slot
      [THEN conjunct2, THEN conjunct1,
       of "(fresh_session [Token CHECK ''check'' 10])
            \<lparr>scan_pos := 2, lookahead_token := WITH, lookahead_yylval := ''with'',
             lookahead_yylloc := 5, have_lookahead := True,
             base_yylval := ''with'', base_yylloc := 0\<rparr>"]
    by (simp add: fresh_session_def numeral_2_eq_2)
  have d: "?d"
    by (simp add: fresh_session_def filter_unfold base_yylex_def numeral_2_eq_2)
  have e: "?e"
    using d single_slot
      [THEN conjunct2, THEN conjunct2, THEN conjunct1,
       of "(fresh_session [Token (OTHER 1) ''select'' 5])
            \<lparr>scan_pos := 1, lookahead_token := WITH, lookahead_yylval := ''with'',
             have_lookahead := True\<rparr>"
          WITH
          "(fresh_session [])
            \<lparr>scan_pos := 2, lookahead_token := OTHER 1, lookahead_yylval := ''select'',
             lookahead_yylloc := 5, have_lookahead := True, base_yylval := ''with''\<rparr>"]
    by (simp add: fresh_session_def)
  from ab have a: "?a" by (rule conjunct1)
  from ab have b: "?b" by (rule conjunct2)
  show ?thesis using a b c d e by (intro conjI)
qed

section \<open>Accounting for every token\<close>

text \<open>
  Claim C5. For a scanner buffer without lexical errors, any number \<open>n\<close> of calls of
  \<open>filtered_base_yylex\<close> return normally, and the tokens they return account for the
  tokens the scanner has produced, in order and each exactly once: the returned tokens
  stand, one by one, for groups of one scanner token (returned as it is) or two (a trigger
  and its continuation, merged), and these groups followed by the content of the lookahead
  slot are exactly what was in the slot at the start followed by the tokens that the
  scanner produced during the calls (what \<open>base_yylex\<close> alone returns from the same
  state). So no token is dropped or duplicated; the scanner is ahead of the caller by the
  content of the slot, at most one token; and after \<open>n\<close> calls at least \<open>n\<close> tokens
  have reached the caller.
\<close>

theorem every_token_once:
  assumes "Lexical_error \<notin> set (scan_buf st)"
  shows "\<exists>groups out st'.
           filter_calls n st = Inr (out, st') \<and>
           list_all2 stands_for out groups \<and>
           concat groups @ pending st' =
             pending st @ scanner_calls (scan_pos st' - scan_pos st) st \<and>
           scan_pos st \<le> scan_pos st' \<and>
           scan_pos st' + length (pending st) =
             scan_pos st + length (concat groups) + length (pending st') \<and>
           length (pending st') \<le> 1 \<and>
           n \<le> length (concat groups)"
proof -
  from filter_calls_account [OF assms, of n] obtain groups out st' where
    c: "filter_calls n st = Inr (out, st')"
    and all: "list_all2 stands_for out groups"
    and mono: "scan_pos st \<le> scan_pos st'"
    and p: "scan_pos st' + length (pending st) =
             scan_pos st + length (concat groups) + length (pending st')"
    and len: "n \<le> length (concat groups)"
    and t: "\<And>k. pending st @ future (scan_pos st' - scan_pos st + k) st =
                concat groups @ pending st' @ future k st'"
    by blast
  have "concat groups @ pending st' = pending st @ scanner_calls (scan_pos st' - scan_pos st) st"
    using t [of 0] by (simp add: scanner_calls_toks)
  moreover have "length (pending st') \<le> 1" by (simp add: pending_def)
  ultimately show ?thesis using c all mono p len by blast
qed

theorem every_token_once_witness:
  "\<exists>groups out st'.
     filter_calls 3
       (fresh_session [Token NULLS_P ''nulls'' 0, Token FIRST_P ''first'' 6,
                       Token WITH ''with'' 12, Token (OTHER 1) ''select'' 17]) = Inr (out, st') \<and>
     out = [(NULLS_FIRST, ''first'', 6), (WITH, ''with'', 12), (OTHER 1, ''select'', 17)] \<and>
     list_all2 stands_for out groups \<and>
     concat groups @ pending st' =
       [(NULLS_P, ''nulls'', 0), (FIRST_P, ''first'', 6), (WITH, ''with'', 12),
        (OTHER 1, ''select'', 17)] \<and>
     scan_pos st' = 4"
  using every_token_once
    [of "fresh_session [Token NULLS_P ''nulls'' 0, Token FIRST_P ''first'' 6,
                        Token WITH ''with'' 12, Token (OTHER 1) ''select'' 17]" 3]
  by (simp add: fresh_session_def numeral_3_eq_3 filter_unfold base_yylex_def pending_def) blast

section \<open>Failures of a parse\<close>

text \<open>
  Claim C6. When the engine ends by a jump to the recovery point, after a lexical error of
  the scanner or a syntax error of the grammar, or returns a nonzero status,
  \<open>raw_parser\<close> calls \<open>scanner_finish\<close> and returns NIL, whatever tree list the
  grammar has stored in \<open>parsetree\<close> by then.
\<close>

theorem failures_collapse:
  assumes "base_yyparse g (raw_parser_setup rules str st) = Inl (err, st') \<or>
           (base_yyparse g (raw_parser_setup rules str st) = Inr (yyresult, st') \<and> yyresult \<noteq> 0)"
  shows "raw_parser g rules str st = ([], scanner_finish st') \<and>
         calls (scanner_finish st') = calls st' @ [Scanner_finish]"
  using assms unfolding raw_parser_def Let_def
  by (auto simp: scanner_finish_def)

theorem failures_collapse_witness:
  "raw_parser demo_grammar demo_rules ''select @'' (fresh_session []) =
     ([], (fresh_session [Lexical_error])
            \<lparr>parsetree := [''select''], pool_memory := Some 0, base_yylval := ''select'',
             scan_eof_yylloc := 8, scan_pos := 1,
             calls := [Pool_memory_create 0, Scanner_init ''select @'', Parser_init,
                       Scanner_finish]\<rparr>) \<and>
   raw_parser demo_grammar demo_rules ''select )'' (fresh_session []) =
     ([], (fresh_session [])
            \<lparr>parsetree := [''select''], pool_memory := Some 0, base_yylval := '')'',
             base_yylloc := 7, scan_eof_yylloc := 8, scan_pos := 2,
             calls := [Pool_memory_create 0, Scanner_init ''select )'', Parser_init,
                       Scanner_finish]\<rparr>) \<and>
   raw_parser demo_grammar demo_rules ''select ;'' (fresh_session []) =
     ([], (fresh_session [])
            \<lparr>parsetree := [''select''], pool_memory := Some 0, base_yylval := '';'',
             base_yylloc := 7, scan_eof_yylloc := 8, scan_pos := 2,
             calls := [Pool_memory_create 0, Scanner_init ''select ;'', Parser_init,
                       Scanner_finish]\<rparr>)"
    (is "?lexical \<and> ?syntax \<and> ?reject")
proof -
  have 1: "base_yyparse demo_grammar (raw_parser_setup demo_rules ''select @'' (fresh_session [])) =
     Inl (LexicalError,
          (fresh_session [Lexical_error])
            \<lparr>parsetree := [''select''], pool_memory := Some 0, base_yylval := ''select'',
             scan_eof_yylloc := 8, scan_pos := 1,
             calls := [Pool_memory_create 0, Scanner_init ''select @'', Parser_init]\<rparr>)"
    by code_simp
  have 2: "base_yyparse demo_grammar (raw_parser_setup demo_rules ''select )'' (fresh_session [])) =
     Inl (SyntaxError,
          (fresh_session [])
            \<lparr>parsetree := [''select''], pool_memory := Some 0, base_yylval := '')'',
             base_yylloc := 7, scan_eof_yylloc := 8, scan_pos := 2,
             calls := [Pool_memory_create 0, Scanner_init ''select )'', Parser_init]\<rparr>)"
    by code_simp
  have 3: "base_yyparse demo_grammar (raw_parser_setup demo_rules ''select ;'' (fresh_session [])) =
     Inr (1,
          (fresh_session [])
            \<lparr>parsetree := [''select''], pool_memory := Some 0, base_yylval := '';'',
             base_yylloc := 7, scan_eof_yylloc := 8, scan_pos := 2,
             calls := [Pool_memory_create 0, Scanner_init ''select ;'', Parser_init]\<rparr>)"
    by code_simp
  have l: "?lexical"
    using failures_collapse [OF disjI1, OF 1]
    by (simp add: scanner_finish_def fresh_session_def)
  have s: "?syntax"
    using failures_collapse [OF disjI1, OF 2]
    by (simp add: scanner_finish_def fresh_session_def)
  have "(1::int) \<noteq> 0" by simp
  with 3 have r: "?reject"
    using failures_collapse [OF disjI2, OF conjI, OF 3]
    by (simp add: scanner_finish_def fresh_session_def)
  show ?thesis using l s r by (intro conjI)
qed

section \<open>Independence of successive parses\<close>

text \<open>
  Claim C7. \<open>raw_parser\<close> starts the engine with \<open>parsetree\<close> cleared to NIL and
  the lookahead slot empty. What it returns is the same from any two states: it depends on
  the text, the lexical rules and the grammar only, not on a tree list or on a lookahead
  token, value or location left by an earlier call, whether that call succeeded or
  failed.
\<close>

theorem raw_parser_independent:
  "parsetree (raw_parser_setup rules str st) = [] \<and>
   \<not> have_lookahead (raw_parser_setup rules str st) \<and>
   fst (raw_parser g rules str st) = fst (raw_parser g rules str st') \<and>
   fst (raw_parser g rules str (snd (raw_parser g' rules' str' st))) =
     fst (raw_parser g rules str st)"
proof -
  have 1: "parsetree (raw_parser_setup rules str st) = [] \<and>
           \<not> have_lookahead (raw_parser_setup rules str st)"
    unfolding raw_parser_setup_def Let_def pool_memory_create_def scanner_init_def parser_init_def
    by (simp split: prod.split)
  have 2: "fst (raw_parser g rules str s) = fst (raw_parser g rules str s')" for s s'
    using yyparse_loop_alike [OF setup_alike [of rules str s s'], of g "gram_start g"]
    by (simp add: raw_parser_result base_yyparse_def)
  from 1 2 [of st st'] 2 [of "snd (raw_parser g' rules' str' st)" st]
  show ?thesis by (intro conjI) simp_all
qed

theorem raw_parser_independent_witness:
  "have_lookahead (snd (raw_parser demo_grammar demo_rules ''nulls select'' (fresh_session []))) \<and>
   fst (raw_parser demo_grammar demo_rules ''nulls select'' (fresh_session [])) = [] \<and>
   fst (raw_parser demo_grammar demo_rules ''select''
         (snd (raw_parser demo_grammar demo_rules ''nulls select'' (fresh_session [])))) =
     [''select'']"
proof -
  have 1: "have_lookahead
             (snd (raw_parser demo_grammar demo_rules ''nulls select'' (fresh_session [])))"
    by code_simp
  have 2: "fst (raw_parser demo_grammar demo_rules ''nulls select'' (fresh_session [])) = []"
    by code_simp
  have 3: "fst (raw_parser demo_grammar demo_rules ''select'' (fresh_session [])) = [''select'']"
    by code_simp
  from raw_parser_independent
    [of demo_rules "''select''" "fresh_session []" demo_grammar "fresh_session []"
        demo_grammar demo_rules "''nulls select''"]
  have "fst (raw_parser demo_grammar demo_rules ''select''
         (snd (raw_parser demo_grammar demo_rules ''nulls select'' (fresh_session [])))) =
        fst (raw_parser demo_grammar demo_rules ''select'' (fresh_session []))"
    by simp
  with 1 2 3 show ?thesis by simp
qed

section \<open>A trigger at the end of the stream\<close>

text \<open>
  Claim C8. For the stream NULLS, end-of-input the first call returns NULLS, with its
  value and location, and buffers the end-of-input token in the lookahead slot like any
  other token that is not a continuation; the next call returns end-of-input from the slot.
  Both calls return normally. The same holds when the buffer ends right after NULLS and the
  scanner reports end-of-input by itself.
\<close>

theorem trigger_at_end:
  "(\<not> have_lookahead st \<and> scan_buf st = [Token NULLS_P v1 l1, Token YYEOF v2 l2] \<longrightarrow>
      filtered_base_yylex st =
        Inr (NULLS_P,
             st\<lparr>scan_buf := [], scan_pos := scan_pos st + 2, lookahead_token := YYEOF,
                lookahead_yylval := v2, lookahead_yylloc := l2, have_lookahead := True,
                base_yylval := v1, base_yylloc := l1\<rparr>) \<and>
      filtered_base_yylex
        (st\<lparr>scan_buf := [], scan_pos := scan_pos st + 2, lookahead_token := YYEOF,
            lookahead_yylval := v2, lookahead_yylloc := l2, have_lookahead := True,
            base_yylval := v1, base_yylloc := l1\<rparr>) =
        Inr (YYEOF,
             st\<lparr>scan_buf := [], scan_pos := scan_pos st + 2, lookahead_token := YYEOF,
                lookahead_yylval := v2, lookahead_yylloc := l2, have_lookahead := False,
                base_yylval := v2, base_yylloc := l2\<rparr>)) \<and>
   (\<not> have_lookahead st \<and> scan_buf st = [Token NULLS_P v1 l1] \<longrightarrow>
      filtered_base_yylex st =
        Inr (NULLS_P,
             st\<lparr>scan_buf := [], scan_pos := scan_pos st + 2, lookahead_token := YYEOF,
                lookahead_yylval := scan_eof_yylval st, lookahead_yylloc := scan_eof_yylloc st,
                have_lookahead := True, base_yylval := v1, base_yylloc := l1\<rparr>) \<and>
      filtered_base_yylex
        (st\<lparr>scan_buf := [], scan_pos := scan_pos st + 2, lookahead_token := YYEOF,
            lookahead_yylval := scan_eof_yylval st, lookahead_yylloc := scan_eof_yylloc st,
            have_lookahead := True, base_yylval := v1, base_yylloc := l1\<rparr>) =
        Inr (YYEOF,
             st\<lparr>scan_buf := [], scan_pos := scan_pos st + 2, lookahead_token := YYEOF,
                lookahead_yylval := scan_eof_yylval st, lookahead_yylloc := scan_eof_yylloc st,
                have_lookahead := False, base_yylval := scan_eof_yylval st,
                base_yylloc := scan_eof_yylloc st\<rparr>))"
  by (simp add: filter_unfold base_yylex_def)

theorem trigger_at_end_witness:
  "filtered_base_yylex (fresh_session [Token NULLS_P ''nulls'' 9, Token YYEOF [] 14]) =
     Inr (NULLS_P,
          (fresh_session [])
            \<lparr>scan_pos := 2, lookahead_yylloc := 14, have_lookahead := True,
             base_yylval := ''nulls'', base_yylloc := 9\<rparr>) \<and>
   filtered_base_yylex
     ((fresh_session [])
            \<lparr>scan_pos := 2, lookahead_yylloc := 14, have_lookahead := True,
             base_yylval := ''nulls'', base_yylloc := 9\<rparr>) =
     Inr (YYEOF,
          (fresh_session [])
            \<lparr>scan_pos := 2, lookahead_yylloc := 14, base_yylloc := 14\<rparr>) \<and>
   filtered_base_yylex (fresh_session [Token NULLS_P ''nulls'' 9]) =
     Inr (NULLS_P,
          (fresh_session [])
            \<lparr>scan_pos := 2, have_lookahead := True,
             base_yylval := ''nulls'', base_yylloc := 9\<rparr>) \<and>
   filtered_base_yylex
     ((fresh_session [])
            \<lparr>scan_pos := 2, have_lookahead := True,
             base_yylval := ''nulls'', base_yylloc := 9\<rparr>) =
     Inr (YYEOF, (fresh_session []) \<lparr>scan_pos := 2\<rparr>)"
    (is "?a \<and> ?b \<and> ?c \<and> ?d")
proof -
  have ab: "?a \<and> ?b"
    using trigger_at_end
      [of "fresh_session [Token NULLS_P ''nulls'' 9, Token YYEOF [] 14]" "''nulls''" 9 "[]" 14]
    by (simp add: fresh_session_def numeral_2_eq_2)
  have cd: "?c \<and> ?d"
    using trigger_at_end
      [of "fresh_session [Token NULLS_P ''nulls'' 9]" "''nulls''" 9 "[]" 14]
    by (simp add: fresh_session_def numeral_2_eq_2)
  from ab have a: "?a" by (rule conjunct1)
  from ab have b: "?b" by (rule conjunct2)
  from cd have c: "?c" by (rule conjunct1)
  from cd have d: "?d" by (rule conjunct2)
  show ?thesis using a b c d by (intro conjI)
qed

section \<open>The arena\<close>

text \<open>
  Claim C9. \<open>raw_parser\<close> calls \<open>pool_memory_create\<close> exactly when \<open>pool_memory\<close>
  is NULL at entry, and stores the new handle; otherwise it leaves \<open>pool_memory\<close> as it
  is. On every exit path the calls it makes are, after that, \<open>scanner_init\<close>,
  \<open>parser_init\<close> and \<open>scanner_finish\<close>: it never calls \<open>pool_memory_delete\<close>. A
  later call of \<open>raw_parser\<close> finds the same handle. Only \<open>free_parser\<close> calls
  \<open>pool_memory_delete\<close>, on the arena of \<open>pool_memory\<close>.
\<close>

theorem arena_lifecycle:
  "pool_memory (snd (raw_parser g rules str st)) =
     (if pool_memory st = None then Some (length (calls st)) else pool_memory st) \<and>
   calls (snd (raw_parser g rules str st)) =
     calls st @ (if pool_memory st = None then [Pool_memory_create (length (calls st))] else [])
       @ [Scanner_init str, Parser_init, Scanner_finish] \<and>
   pool_memory (snd (raw_parser g' rules' str' (snd (raw_parser g rules str st)))) =
     pool_memory (snd (raw_parser g rules str st)) \<and>
   calls (free_parser st) = calls st @ [Pool_memory_delete (pool_memory st) 1]"
proof -
  have p: "pool_memory (snd (raw_parser g rules str st)) =
     (if pool_memory st = None then Some (length (calls st)) else pool_memory st)"
    by (simp add: raw_parser_state scanner_finish_def base_yyparse_def yyparse_loop_frame
        setup_pool)
  have c: "calls (snd (raw_parser g rules str st)) =
     calls st @ (if pool_memory st = None then [Pool_memory_create (length (calls st))] else [])
       @ [Scanner_init str, Parser_init, Scanner_finish]"
    by (simp add: raw_parser_state scanner_finish_def base_yyparse_def yyparse_loop_frame
        setup_calls)
  have r: "pool_memory (snd (raw_parser g' rules' str' (snd (raw_parser g rules str st)))) =
     pool_memory (snd (raw_parser g rules str st))"
    by (simp add: raw_parser_state scanner_finish_def base_yyparse_def yyparse_loop_frame
        setup_pool)
  have f: "calls (free_parser st) = calls st @ [Pool_memory_delete (pool_memory st) 1]"
    by (simp add: free_parser_def pool_memory_delete_def)
  show ?thesis using p c r f by (intro conjI)
qed

theorem arena_lifecycle_witness:
  "pool_memory (snd (raw_parser demo_grammar demo_rules ''select'' (fresh_session []))) = Some 0 \<and>
   calls (snd (raw_parser demo_grammar demo_rules ''select'' (fresh_session []))) =
     [Pool_memory_create 0, Scanner_init ''select'', Parser_init, Scanner_finish] \<and>
   pool_memory
     (snd (raw_parser demo_grammar demo_rules ''select )''
        (snd (raw_parser demo_grammar demo_rules ''select'' (fresh_session []))))) = Some 0 \<and>
   calls
     (snd (raw_parser demo_grammar demo_rules ''select )''
        (snd (raw_parser demo_grammar demo_rules ''select'' (fresh_session []))))) =
     [Pool_memory_create 0, Scanner_init ''select'', Parser_init, Scanner_finish,
      Scanner_init ''select )'', Parser_init, Scanner_finish]"
  using
    arena_lifecycle
      [of demo_grammar demo_rules "''select''" "fresh_session []"
          demo_grammar demo_rules "''select )''"]
    arena_lifecycle
      [of demo_grammar demo_rules "''select )''"
          "snd (raw_parser demo_grammar demo_rules ''select'' (fresh_session []))"
          demo_grammar demo_rules "''select''"]
  by (simp add: fresh_session_def)

text \<open>
  Claim C10. \<open>free_parser\<close> passes the handle to \<open>pool_memory_delete\<close> and leaves the
  variable \<open>pool_memory\<close> as it is. So a call of \<open>raw_parser\<close> after
  \<open>free_parser\<close>, when an arena had been created, finds \<open>pool_memory\<close> not NULL and
  does not call \<open>pool_memory_create\<close>: it keeps the handle of the released arena.
\<close>

theorem free_parser_keeps_handle:
  "pool_memory (free_parser st) = pool_memory st \<and>
   (pool_memory st = Some pool \<longrightarrow>
      pool_memory (snd (raw_parser g rules str (free_parser st))) = Some pool \<and>
      calls (snd (raw_parser g rules str (free_parser st))) =
        calls st @ [Pool_memory_delete (Some pool) 1, Scanner_init str, Parser_init,
                    Scanner_finish])"
  by (simp add: raw_parser_state scanner_finish_def base_yyparse_def yyparse_loop_frame
      setup_calls setup_pool free_parser_def pool_memory_delete_def)

theorem free_parser_keeps_handle_witness:
  "pool_memory
     (snd (raw_parser demo_grammar demo_rules ''select''
        (free_parser
           ((fresh_session [])
              \<lparr>pool_memory := Some 0,
               calls := [Pool_memory_create 0, Scanner_init ''select'', Parser_init,
                         Scanner_finish]\<rparr>)))) = Some 0 \<and>
   calls
     (snd (raw_parser demo_grammar demo_rules ''select''
        (free_parser
           ((fresh_session [])
              \<lparr>pool_memory := Some 0,
               calls := [Pool_memory_create 0, Scanner_init ''select'', Parser_init,
                         Scanner_finish]\<rparr>)))) =
     [Pool_memory_create 0, Scanner_init ''select'', Parser_init, Scanner_finish,
      Pool_memory_delete (Some 0) 1, Scanner_init ''select'', Parser_init, Scanner_finish]"
  using free_parser_keeps_handle
    [of "(fresh_session [])
              \<lparr>pool_memory := Some 0,
               calls := [Pool_memory_create 0, Scanner_init ''select'', Parser_init,
                         Scanner_finish]\<rparr>" 0 demo_grammar demo_rules "''select''"]
  by (simp add: fresh_session_def)

end
